theory Spec2Isabelle
  imports Main "HOL-Library.Multiset"
begin

section \<open>Values shared by the GTP layer and the solver\<close>

text \<open>
  Exceptions of the Python source are values. \<open>ValueError\<close> carries the message the
  source formats (empty for a bare \<^verbatim>\<open>raise ValueError\<close>).
\<close>

datatype error =
    ValueError string
  | AssertionError
  | IndexError
  | TypeError
  | OSError string
  | RecursionError

text \<open>
  Modelled from the spec: the distinguished pass value \<^verbatim>\<open>PASS\<close> of \<^verbatim>\<open>board_util\<close>
  (not under src/). A move is "a board coordinate or the distinguished pass value"; the
  same value is used for a point (a board index) and for a (row, col) pair, and it is also
  what a transposition entry holds when no best move has been recorded.
\<close>

datatype 'a or_pass = PASS | Move 'a

type_synonym point = "nat or_pass"
type_synonym coord = "(int \<times> int) or_pass"

section \<open>Python string primitives used by the coordinate functions\<close>

text \<open>
  Strings are ASCII here: \<^verbatim>\<open>str.lower\<close> maps \<^verbatim>\<open>A..Z\<close> to \<^verbatim>\<open>a..z\<close> and leaves every other
  character alone.
\<close>

definition lower_char :: "char \<Rightarrow> char" where
  "lower_char c =
     (if 65 \<le> (of_char c :: nat) \<and> (of_char c :: nat) \<le> 90
      then char_of ((of_char c :: nat) + 32) else c)"

definition lower :: "string \<Rightarrow> string" where
  "lower s = map lower_char s"

definition digit_char :: "nat \<Rightarrow> char" where
  "digit_char d = char_of (48 + d)"

text \<open>\<^verbatim>\<open>str(n)\<close> for an integer: decimal digits, most significant first, \<^verbatim>\<open>-\<close> when negative.\<close>

fun str_nat :: "nat \<Rightarrow> string" where
  "str_nat n = (if n < 10 then [digit_char n] else str_nat (n div 10) @ [digit_char (n mod 10)])"

declare str_nat.simps [simp del]

definition py_str :: "int \<Rightarrow> string" where
  "py_str i = (if i < 0 then CHR ''-'' # str_nat (nat (- i)) else str_nat (nat i))"

definition is_digit :: "char \<Rightarrow> bool" where
  "is_digit c = (48 \<le> (of_char c :: nat) \<and> (of_char c :: nat) \<le> 57)"

definition digit_val :: "char \<Rightarrow> nat" where
  "digit_val c = (of_char c :: nat) - 48"

definition is_space :: "char \<Rightarrow> bool" where
  "is_space c =
     ((9 \<le> (of_char c :: nat) \<and> (of_char c :: nat) \<le> 13)
      \<or> (28 \<le> (of_char c :: nat) \<and> (of_char c :: nat) \<le> 32))"

definition strip :: "string \<Rightarrow> string" where
  "strip s = rev (dropWhile is_space (rev (dropWhile is_space s)))"

text \<open>
  The digits of an \<^verbatim>\<open>int(...)\<close> literal: one or more decimal digits, where single
  underscores may separate digits. The flag says whether the previous character was a
  digit.
\<close>

fun digits_acc :: "nat \<Rightarrow> bool \<Rightarrow> string \<Rightarrow> nat option" where
  "digits_acc acc prev [] = (if prev then Some acc else None)"
| "digits_acc acc prev (c # cs) =
     (if is_digit c then digits_acc (10 * acc + digit_val c) True cs
      else if c = CHR ''_'' \<and> prev then digits_acc acc False cs
      else None)"

text \<open>
  \<^verbatim>\<open>int(s)\<close> on a string: surrounding whitespace is stripped, an optional sign is
  read, the rest must be digits; anything else raises \<^verbatim>\<open>ValueError\<close>.
\<close>

definition py_int :: "string \<Rightarrow> error + int" where
  "py_int s =
     (let t = strip s;
          r = (case t of
                 [] \<Rightarrow> None
               | c # cs \<Rightarrow>
                   if c = CHR ''-'' then map_option (\<lambda>n. - int n) (digits_acc 0 False cs)
                   else if c = CHR ''+'' then map_option int (digits_acc 0 False cs)
                   else map_option int (digits_acc 0 False t))
      in case r of None \<Rightarrow> Inl (ValueError ''invalid literal for int()'') | Some i \<Rightarrow> Inr i)"

text \<open>\<^verbatim>\<open>xs[i]\<close>: a negative index counts from the end, out of range raises \<^verbatim>\<open>IndexError\<close>.\<close>

definition py_index :: "'a list \<Rightarrow> int \<Rightarrow> error + 'a" where
  "py_index xs i =
     (if 0 \<le> i \<and> i < int (length xs) then Inr (xs ! nat i)
      else if i < 0 \<and> 0 \<le> i + int (length xs) then Inr (xs ! nat (i + int (length xs)))
      else Inl IndexError)"

section \<open>Coordinates and their text form\<close>

definition column_letters :: string where
  "column_letters = ''ABCDEFGHJKLMNOPQRSTUVWXYZ''"

text \<open>
  \<^verbatim>\<open>point_to_coord(point, boardsize)\<close>: \<^verbatim>\<open>PASS\<close> is not transformed, any other point is
  \<^verbatim>\<open>divmod(point, boardsize + 1)\<close>.
\<close>

definition point_to_coord :: "point \<Rightarrow> nat \<Rightarrow> coord" where
  "point_to_coord pt boardsize =
     (case pt of
        PASS \<Rightarrow> PASS
      | Move p \<Rightarrow> (let NS = boardsize + 1 in Move (int (p div NS), int (p mod NS))))"

text \<open>
  \<^verbatim>\<open>format_point(move)\<close>. The constant \<^verbatim>\<open>MAXSIZE\<close> is imported from \<^verbatim>\<open>board_util\<close>,
  which is not under src/, so it is a parameter. The source asserts \<^verbatim>\<open>MAXSIZE <= 25\<close>,
  then tests \<^verbatim>\<open>0 <= row < MAXSIZE\<close> and \<^verbatim>\<open>0 <= col < MAXSIZE\<close>, and indexes the column
  letters at \<^verbatim>\<open>col - 1\<close>.
\<close>

definition format_point :: "int \<Rightarrow> coord \<Rightarrow> error + string" where
  "format_point MAXSIZE mv =
     (if \<not> MAXSIZE \<le> 25 then Inl AssertionError
      else case mv of
        PASS \<Rightarrow> Inr ''PASS''
      | Move (row, col) \<Rightarrow>
          if \<not> (0 \<le> row \<and> row < MAXSIZE) \<or> \<not> (0 \<le> col \<and> col < MAXSIZE)
          then Inl (ValueError [])
          else (case py_index column_letters (col - 1) of
                  Inl e \<Rightarrow> Inl e
                | Inr c \<Rightarrow> Inr (c # py_str row)))"

text \<open>
  \<^verbatim>\<open>move_to_coord(point_str, board_size)\<close>. The \<^verbatim>\<open>try\<close> block turns an \<^verbatim>\<open>IndexError\<close>
  (empty string) and every \<^verbatim>\<open>ValueError\<close> raised inside it into
  \<^verbatim>\<open>ValueError("invalid point: '<s>'")\<close>.
\<close>

definition move_to_coord :: "int \<Rightarrow> string \<Rightarrow> int \<Rightarrow> error + coord" where
  "move_to_coord MAXSIZE point_str board_size =
     (if \<not> (2 \<le> board_size \<and> board_size \<le> MAXSIZE)
      then Inl (ValueError ''board_size out of range'')
      else
        let s = lower point_str in
        if s = ''pass'' then Inr PASS
        else
          (case s of
             [] \<Rightarrow> Inl (ValueError (''invalid point: '' @ [CHR 0x27] @ s @ [CHR 0x27]))
           | col_c # rest \<Rightarrow>
               if \<not> (97 \<le> (of_char col_c :: nat) \<and> (of_char col_c :: nat) \<le> 122)
                  \<or> col_c = CHR ''i''
               then Inl (ValueError (''invalid point: '' @ [CHR 0x27] @ s @ [CHR 0x27]))
               else
                 let col0 = int (of_char col_c) - 97;
                     col = (if (of_char col_c :: nat) < 105 then col0 + 1 else col0)
                 in (case py_int rest of
                       Inl e \<Rightarrow> Inl (ValueError (''invalid point: '' @ [CHR 0x27] @ s @ [CHR 0x27]))
                     | Inr row \<Rightarrow>
                         if row < 1
                         then Inl (ValueError (''invalid point: '' @ [CHR 0x27] @ s @ [CHR 0x27]))
                         else if \<not> (col \<le> board_size \<and> row \<le> board_size)
                         then Inl (ValueError ([CHR 0x22] @ s @ [CHR 0x22] @ '' wrong coordinate''))
                         else Inr (Move (row, col)))))"

section \<open>The board collaborator and the transposition table\<close>

text \<open>
  The colour codes of \<^verbatim>\<open>board_util\<close> (\<^verbatim>\<open>EMPTY\<close>, \<^verbatim>\<open>BLACK\<close>, \<^verbatim>\<open>WHITE\<close>, \<^verbatim>\<open>BORDER\<close>), the four
  values \<^verbatim>\<open>color_to_int\<close> maps to.
\<close>

datatype color = EMPTY | BLACK | WHITE | BORDER

text \<open>
  The board class is not under src/: the solver reaches it only through the methods below,
  so the board is a type parameter \<open>'b\<close> and its methods are the fields of a record.
  Mutating methods return the new board. \<^verbatim>\<open>play_move\<close> also returns a flag in Python,
  which the solver ignores.
\<close>

record 'b board_ops =
  hash :: "'b \<Rightarrow> int"
  endOfGame :: "'b \<Rightarrow> bool"
  staticallyEvaluateForToPlay :: "'b \<Rightarrow> int"
  get_empty_points :: "'b \<Rightarrow> nat list"
  current_player :: "'b \<Rightarrow> color"
  play_move :: "'b \<Rightarrow> nat \<Rightarrow> color \<Rightarrow> 'b"
  undoMove :: "'b \<Rightarrow> 'b"
  size_board :: "'b \<Rightarrow> nat"

text \<open>
  Modelled from the spec: the transposition table (\<^verbatim>\<open>board.hashTable\<close>, whose class is not
  under src/). Two separate associative stores keyed by the fingerprint, one for the
  value and one for the best move; a store overwrites, nothing is evicted; a lookup
  gives the entry (value, move) or nothing. A component that was never stored reads as
  Python's \<^verbatim>\<open>None\<close>, which for the move is \<^verbatim>\<open>PASS\<close>.
\<close>

record tt =
  scores :: "int \<rightharpoonup> int"
  moves :: "int \<rightharpoonup> nat"

definition empty_tt :: tt where
  "empty_tt = \<lparr>scores = Map.empty, moves = Map.empty\<rparr>"

definition lookup :: "tt \<Rightarrow> int \<Rightarrow> (int option \<times> point) option" where
  "lookup t code =
     (if scores t code = None \<and> moves t code = None then None
      else Some (scores t code, (case moves t code of None \<Rightarrow> PASS | Some m \<Rightarrow> Move m)))"

definition tt_storeScore :: "tt \<Rightarrow> int \<Rightarrow> int \<Rightarrow> tt" where
  "tt_storeScore t code score = t\<lparr>scores := (scores t)(code \<mapsto> score)\<rparr>"

definition tt_storeMove :: "tt \<Rightarrow> int \<Rightarrow> nat \<Rightarrow> tt" where
  "tt_storeMove t code m = t\<lparr>moves := (moves t)(code \<mapsto> m)\<rparr>"

text \<open>\<^verbatim>\<open>storeScore(tt, state, score)\<close> and \<^verbatim>\<open>storeMove(tt, state, move)\<close> of the source.\<close>

definition storeScore :: "'b board_ops \<Rightarrow> tt \<Rightarrow> 'b \<Rightarrow> int \<Rightarrow> tt" where
  "storeScore ops t state score = tt_storeScore t (hash ops state) score"

definition storeMove :: "'b board_ops \<Rightarrow> tt \<Rightarrow> 'b \<Rightarrow> nat \<Rightarrow> tt" where
  "storeMove ops t state m = tt_storeMove t (hash ops state) m"

section \<open>The move orderer\<close>

text \<open>
  The \<^verbatim>\<open>while\<close> loop of \<^verbatim>\<open>orderMoves\<close>: advance \<open>index\<close> while the entry there has a
  strictly greater heuristic.
\<close>

function scan_index :: "(nat \<times> int) list \<Rightarrow> int \<Rightarrow> nat \<Rightarrow> nat" where
  "scan_index orderedMoves heuristic index =
     (if index < length orderedMoves \<and> snd (orderedMoves ! index) > heuristic
      then scan_index orderedMoves heuristic (index + 1)
      else index)"
  by pat_completeness auto
termination
  by (relation "measure (\<lambda>(om, h, i). length om - i)") auto

declare scan_index.simps [simp del]

text \<open>\<^verbatim>\<open>list.insert(index, x)\<close> for \<open>0 \<le> index \<le> len\<close>.\<close>

definition list_insert :: "'a list \<Rightarrow> nat \<Rightarrow> 'a \<Rightarrow> 'a list" where
  "list_insert xs index x = take index xs @ x # drop index xs"

text \<open>One pass of the \<^verbatim>\<open>for\<close> body after the heuristic is known.\<close>

definition place_move :: "(nat \<times> int) list \<Rightarrow> nat \<Rightarrow> int \<Rightarrow> (nat \<times> int) list" where
  "place_move orderedMoves m heuristic =
     (if length orderedMoves > 0 then
        (let index = scan_index orderedMoves heuristic 0 in
         if index \<ge> length orderedMoves then orderedMoves @ [(m, heuristic)]
         else list_insert orderedMoves index (m, heuristic))
      else orderedMoves @ [(m, heuristic)])"

fun orderMoves_loop ::
  "'b board_ops \<Rightarrow> nat list \<Rightarrow> 'b \<Rightarrow> (nat \<times> int) list \<Rightarrow> (nat \<times> int) list \<times> 'b" where
  "orderMoves_loop ops [] state orderedMoves = (orderedMoves, state)"
| "orderMoves_loop ops (m # ms) state orderedMoves =
     (let s1 = play_move ops state m (current_player ops state);
          heuristic = staticallyEvaluateForToPlay ops s1;
          orderedMoves' = place_move orderedMoves m heuristic;
          s2 = undoMove ops s1
      in orderMoves_loop ops ms s2 orderedMoves')"

definition orderMoves :: "'b board_ops \<Rightarrow> 'b \<Rightarrow> (nat \<times> int) list \<times> 'b" where
  "orderMoves ops state = orderMoves_loop ops (get_empty_points ops state) state []"

section \<open>The alpha-beta searcher\<close>

text \<open>
  The \<^verbatim>\<open>for m in orderedMoves\<close> loop of \<^verbatim>\<open>alphabeta_tt\<close>. \<open>child\<close> is the recursive call
  on the position after the move, with the window it is given; it returns the child's
  value with the board and table it leaves, or \<open>None\<close> when it does not return.
\<close>

fun alphabeta_tt_loop ::
  "('b \<Rightarrow> tt \<Rightarrow> int \<Rightarrow> int \<Rightarrow> (int \<times> 'b \<times> tt) option) \<Rightarrow> 'b board_ops \<Rightarrow>
   (nat \<times> int) list \<Rightarrow> 'b \<Rightarrow> tt \<Rightarrow> int \<Rightarrow> int \<Rightarrow> (int \<times> 'b \<times> tt) option" where
  "alphabeta_tt_loop child ops [] state t alpha beta =
     Some (alpha, state, storeScore ops t state alpha)"
| "alphabeta_tt_loop child ops (mh # rest) state t alpha beta =
     (let m = fst mh;
          s1 = play_move ops state m (current_player ops state)
      in case child s1 t (- beta) (- alpha) of
           None \<Rightarrow> None
         | Some (v, s2, t2) \<Rightarrow>
             (let val = - v;
                  winMove = (if val > alpha \<and> (val = 0 \<or> val = 5) then Some m else None);
                  alpha' = (if val > alpha then val else alpha);
                  s3 = undoMove ops s2;
                  t3 = (case winMove of None \<Rightarrow> t2 | Some w \<Rightarrow> storeMove ops t2 s3 w)
              in if val \<ge> beta then Some (beta, s3, storeScore ops t3 s3 beta)
                 else alphabeta_tt_loop child ops rest s3 t3 alpha' beta))"

text \<open>
  \<^verbatim>\<open>alphabeta_tt(state, alpha, beta, tt, depth, depthMove, depthLimit)\<close>. The first argument
  bounds the nesting of recursive calls (Python's recursion limit): with none left the
  call does not return a value, which is \<open>None\<close>. The result is the returned value with
  the board and the table as the call leaves them.
\<close>

primrec alphabeta_tt ::
  "nat \<Rightarrow> 'b board_ops \<Rightarrow> 'b \<Rightarrow> int \<Rightarrow> int \<Rightarrow> tt \<Rightarrow> nat \<Rightarrow> int \<Rightarrow> nat \<Rightarrow> (int \<times> 'b \<times> tt) option" where
  "alphabeta_tt 0 ops state alpha beta t depth depthMove depthLimit = None"
| "alphabeta_tt (Suc fuel) ops state alpha beta t depth depthMove depthLimit =
     (let result = lookup t (hash ops state) in
      if (case result of None \<Rightarrow> False | Some r \<Rightarrow> fst r = Some 5) then Some (5, state, t)
      else if endOfGame ops state \<or> depth = depthLimit then
        (let result = staticallyEvaluateForToPlay ops state
         in Some (result, state, storeScore ops t state result))
      else
        (let (orderedMoves, state1) = orderMoves ops state
         in alphabeta_tt_loop
              (\<lambda>s t' a b. alphabeta_tt fuel ops s a b t' (depth + 1) depthMove depthLimit)
              ops orderedMoves state1 t alpha beta))"

section \<open>The iterative deepening driver\<close>

text \<open>
  The \<^verbatim>\<open>for d in range(1, n + 1)\<close> loop of \<^verbatim>\<open>iterativeDeepening\<close>, over the list of the
  depth limits still to try; \<open>result\<close> is the variable of that name. \<^verbatim>\<open>INFINITY\<close> is a
  constant of \<^verbatim>\<open>board_util\<close>, not under src/, so it is a parameter.
\<close>

fun iterativeDeepening_loop ::
  "nat \<Rightarrow> 'b board_ops \<Rightarrow> int \<Rightarrow> nat list \<Rightarrow> int \<Rightarrow> 'b \<Rightarrow> tt \<Rightarrow> (int \<times> 'b \<times> tt) option" where
  "iterativeDeepening_loop fuel ops INFINITY [] result board t = Some (result, board, t)"
| "iterativeDeepening_loop fuel ops INFINITY (d # ds) result board t =
     (case alphabeta_tt fuel ops board (- INFINITY) INFINITY t 0 INFINITY d of
        None \<Rightarrow> None
      | Some (result', board', t') \<Rightarrow>
          if result' = 5 \<or> result' = - 5 then Some (result', board', t')
          else iterativeDeepening_loop fuel ops INFINITY ds result' board' t')"

definition iterativeDeepening ::
  "nat \<Rightarrow> 'b board_ops \<Rightarrow> int \<Rightarrow> 'b \<Rightarrow> tt \<Rightarrow> (int \<times> 'b \<times> tt) option" where
  "iterativeDeepening fuel ops INFINITY board t =
     iterativeDeepening_loop fuel ops INFINITY
       [1 ..< length (get_empty_points ops board) + 1] 1 board t"

section \<open>A reference board\<close>

text \<open>
  Modelled from the spec: the Game State collaborator (the board class, not under src/), as
  far as the spec's interface fixes it: legal moves are the empty points in board
  enumeration order, a move places a stone and passes the turn, undo takes the last
  stone back, a state is terminal when a five-in-a-row exists or the board is full, and
  the static evaluation for the side to move is \<open>5\<close> for a win, \<open>- 5\<close> for a loss and \<open>0\<close>
  otherwise. The points are the indices of a one-dimensional array with border cells,
  \<open>point = row * (size + 1) + col\<close>, as \<^verbatim>\<open>point_to_coord\<close> expects. The general theorems
  below do not depend on this board; it is the instance at which they are exercised.
\<close>

record goboard =
  gb_size :: nat
  gb_cells :: "color list"
  gb_player :: color
  gb_moves :: "nat list"

fun opponent :: "color \<Rightarrow> color" where
  "opponent BLACK = WHITE"
| "opponent WHITE = BLACK"
| "opponent EMPTY = BORDER"
| "opponent BORDER = EMPTY"

fun color_code :: "color \<Rightarrow> int" where
  "color_code EMPTY = 0"
| "color_code BLACK = 1"
| "color_code WHITE = 2"
| "color_code BORDER = 3"

definition gb_line :: "color list \<Rightarrow> nat \<Rightarrow> nat \<Rightarrow> color \<Rightarrow> bool" where
  "gb_line cs p d c = (p + 4 * d < length cs \<and> list_all (\<lambda>k. cs ! (p + k * d) = c) [0 ..< 5])"

definition gb_five :: "goboard \<Rightarrow> color \<Rightarrow> bool" where
  "gb_five b c =
     (let NS = gb_size b + 1 in
      list_ex (\<lambda>p. list_ex (\<lambda>d. gb_line (gb_cells b) p d c) [1, NS, NS + 1, NS - 1])
        [0 ..< length (gb_cells b)])"

definition gb_empty_points :: "goboard \<Rightarrow> nat list" where
  "gb_empty_points b = filter (\<lambda>p. gb_cells b ! p = EMPTY) [0 ..< length (gb_cells b)]"

definition gb_endOfGame :: "goboard \<Rightarrow> bool" where
  "gb_endOfGame b = (gb_five b BLACK \<or> gb_five b WHITE \<or> gb_empty_points b = [])"

definition gb_evaluate :: "goboard \<Rightarrow> int" where
  "gb_evaluate b =
     (if gb_five b (gb_player b) then 5
      else if gb_five b (opponent (gb_player b)) then - 5
      else 0)"

definition gb_hash :: "goboard \<Rightarrow> int" where
  "gb_hash b = foldr (\<lambda>c h. color_code c + 4 * h) (gb_cells b) (color_code (gb_player b))"

definition gb_play_move :: "goboard \<Rightarrow> nat \<Rightarrow> color \<Rightarrow> goboard" where
  "gb_play_move b m c =
     b\<lparr>gb_cells := (gb_cells b)[m := c], gb_player := opponent c, gb_moves := m # gb_moves b\<rparr>"

definition gb_undoMove :: "goboard \<Rightarrow> goboard" where
  "gb_undoMove b =
     (case gb_moves b of
        [] \<Rightarrow> b
      | m # ms \<Rightarrow>
          b\<lparr>gb_cells := (gb_cells b)[m := EMPTY], gb_player := opponent (gb_player b),
            gb_moves := ms\<rparr>)"

definition gomoku_ops :: "goboard board_ops" where
  "gomoku_ops =
     \<lparr>hash = gb_hash, endOfGame = gb_endOfGame, staticallyEvaluateForToPlay = gb_evaluate,
      get_empty_points = gb_empty_points, current_player = gb_player,
      play_move = gb_play_move, undoMove = gb_undoMove, size_board = gb_size\<rparr>"

text \<open>
  A board of the given size from the rows of its stones, bottom row first: every row is
  preceded by one border cell, and border rows close the array.
\<close>

definition board_of_rows :: "nat \<Rightarrow> color list list \<Rightarrow> color \<Rightarrow> goboard" where
  "board_of_rows n rows c =
     \<lparr>gb_size = n,
      gb_cells = replicate (n + 1) BORDER @ concat (map (\<lambda>r. BORDER # r) rows)
                 @ replicate (n + 2) BORDER,
      gb_player = c, gb_moves = []\<rparr>"

text \<open>The positions at which the theorems below are exercised.\<close>

definition board_2x2_open :: goboard where
  "board_2x2_open = board_of_rows 2 [[EMPTY, EMPTY], [EMPTY, EMPTY]] BLACK"

definition board_2x2_full :: goboard where
  "board_2x2_full = board_of_rows 2 [[BLACK, WHITE], [WHITE, BLACK]] BLACK"

definition board_2x2_half :: goboard where
  "board_2x2_half = board_of_rows 2 [[BLACK, WHITE], [EMPTY, EMPTY]] BLACK"

definition board_black_wins :: goboard where
  "board_black_wins = board_of_rows 5
     [[BLACK, BLACK, BLACK, BLACK, EMPTY],
      [WHITE, WHITE, WHITE, WHITE, EMPTY],
      [BLACK, WHITE, BLACK, WHITE, BLACK],
      [WHITE, BLACK, WHITE, BLACK, WHITE],
      [BLACK, WHITE, BLACK, WHITE, WHITE]] BLACK"

definition board_black_lost :: goboard where
  "board_black_lost = board_of_rows 5
     [[WHITE, WHITE, WHITE, WHITE, EMPTY],
      [WHITE, WHITE, WHITE, WHITE, EMPTY],
      [BLACK, BLACK, WHITE, BLACK, BLACK],
      [BLACK, WHITE, BLACK, BLACK, WHITE],
      [BLACK, BLACK, WHITE, BLACK, BLACK]] BLACK"

definition board_black_won :: goboard where
  "board_black_won = board_of_rows 5
     [[BLACK, BLACK, BLACK, BLACK, BLACK],
      [WHITE, WHITE, WHITE, WHITE, EMPTY],
      [BLACK, WHITE, BLACK, WHITE, BLACK],
      [WHITE, BLACK, WHITE, BLACK, WHITE],
      [BLACK, WHITE, BLACK, WHITE, WHITE]] WHITE"

section \<open>The solve command\<close>

text \<open>
  The fields of the GTP connection that \<^verbatim>\<open>solve_cmd\<close> reads. The table is the
  \<^verbatim>\<open>hashTable\<close> attribute of the board object; it is kept beside the board here, since
  the board's own methods are a parameter.
\<close>

record 'b gtp_connection =
  board :: 'b
  hashTable :: tt
  time :: nat
  genMoveRunning :: bool

text \<open>
  What one \<^verbatim>\<open>solve_cmd\<close> call does: the argument of \<^verbatim>\<open>self.respond\<close> if it responds, the
  value it returns (\<^verbatim>\<open>None\<close> is \<^verbatim>\<open>PASS\<close>), and the connection afterwards.
\<close>

record 'b solve_result =
  response :: "string option"
  returned :: point
  connection :: "'b gtp_connection"

text \<open>\<^verbatim>\<open>handler(signum, frame)\<close>, installed for \<^verbatim>\<open>SIGALRM\<close>: it raises.\<close>

definition handler :: error where
  "handler = OSError ''Time's up!''"

text \<open>
  The body of the \<^verbatim>\<open>try\<close> block of \<^verbatim>\<open>solve_cmd\<close> up to \<^verbatim>\<open>signal.alarm(0)\<close>: either an
  exception, with the connection as it is when the exception is raised, or the search
  result, the formatted move, the recorded move and the connection.

  \<open>expired\<close> is the environment's part: whether the alarm set by
  \<^verbatim>\<open>signal.alarm(self.time)\<close> is delivered before \<^verbatim>\<open>signal.alarm(0)\<close> disarms it, in which
  case \<^verbatim>\<open>handler\<close> raises inside the \<^verbatim>\<open>try\<close> block (the model lets it be raised before
  the search has changed anything). \<^verbatim>\<open>signal.alarm(0)\<close> schedules no alarm, so with
  \<^verbatim>\<open>self.time = 0\<close> nothing can be delivered; budgets are natural numbers here. A search
  that does not return is a \<^verbatim>\<open>RecursionError\<close>, subscripting the \<^verbatim>\<open>None\<close> of a lookup
  without an entry is a \<^verbatim>\<open>TypeError\<close>, and \<^verbatim>\<open>format_point\<close> may raise.

  Modelled from the spec: \<^verbatim>\<open>board.copy()\<close> and \<^verbatim>\<open>board.updateHash(board_copy)\<close> (not under
  src/): the copy is an independent board with the same contents and table, and
  \<^verbatim>\<open>updateHash\<close> takes the table of the copy over into the live board.
\<close>

definition solve_try ::
  "int \<Rightarrow> int \<Rightarrow> nat \<Rightarrow> 'b board_ops \<Rightarrow> 'b gtp_connection \<Rightarrow> bool \<Rightarrow>
   (error \<times> 'b gtp_connection) + (int \<times> string \<times> point \<times> 'b gtp_connection)" where
  "solve_try MAXSIZE INFINITY fuel ops self expired =
     (if time self \<noteq> 0 \<and> expired then Inl (handler, self)
      else
        let board_copy = board self in
        case iterativeDeepening fuel ops INFINITY board_copy (hashTable self) of
          None \<Rightarrow> Inl (RecursionError, self)
        | Some (result, board_copy', t') \<Rightarrow>
            (let self' = self\<lparr>hashTable := t'\<rparr> in
             case lookup (hashTable self') (hash ops (board self')) of
               None \<Rightarrow> Inl (TypeError, self')
             | Some entry \<Rightarrow>
                 (case format_point MAXSIZE
                         (point_to_coord (snd entry) (size_board ops board_copy')) of
                    Inl e \<Rightarrow> Inl (e, self')
                  | Inr mv \<Rightarrow> Inr (result, mv, snd entry, self'))))"

text \<open>The bare \<^verbatim>\<open>except:\<close> branch: respond "unknown" unless genmove is running, return nothing.\<close>

definition solve_except :: "'b gtp_connection \<Rightarrow> 'b solve_result" where
  "solve_except self =
     \<lparr>response = (if genMoveRunning self = False then Some ''unknown'' else None),
      returned = PASS, connection = self\<rparr>"

text \<open>
  \<^verbatim>\<open>solve_cmd\<close>: whatever the \<^verbatim>\<open>try\<close> block raises ends in the \<^verbatim>\<open>except:\<close> branch; otherwise
  the result is reported according to the side to move of the copy, read before the
  search, and the recorded move is returned.
\<close>

definition solve_cmd ::
  "int \<Rightarrow> int \<Rightarrow> nat \<Rightarrow> 'b board_ops \<Rightarrow> 'b gtp_connection \<Rightarrow> bool \<Rightarrow> 'b solve_result" where
  "solve_cmd MAXSIZE INFINITY fuel ops self expired =
     (let current_player = current_player ops (board self) in
      case solve_try MAXSIZE INFINITY fuel ops self expired of
        Inl (e, self') \<Rightarrow> solve_except self'
      | Inr (result, mv, m, self') \<Rightarrow>
          \<lparr>response =
             (if genMoveRunning self' = False then
                Some (if result = 5 \<and> current_player = BLACK then ''b '' @ mv
                      else if result = 5 \<and> current_player = WHITE then ''w '' @ mv
                      else if result = - 5 \<and> current_player = BLACK then ''w''
                      else if result = - 5 \<and> current_player = WHITE then ''b''
                      else ''draw '' @ mv)
              else None),
           returned = m, connection = self'\<rparr>)"

section \<open>Notions the statements use\<close>

text \<open>
  The contract of the board collaborator that the solver relies on: undoing a move just
  played on an empty point gives the position back.
\<close>

definition undo_restores :: "'b board_ops \<Rightarrow> bool" where
  "undo_restores ops =
     (\<forall>s m. m \<in> set (get_empty_points ops s) \<longrightarrow>
            undoMove ops (play_move ops s m (current_player ops s)) = s)"

text \<open>The one-ply heuristic of a move: the static evaluation of the position after it.\<close>

definition one_ply :: "'b board_ops \<Rightarrow> 'b \<Rightarrow> nat \<Rightarrow> int" where
  "one_ply ops s m = staticallyEvaluateForToPlay ops (play_move ops s m (current_player ops s))"

text \<open>
  The successive searcher invocations for a list of depth limits, each on the board and
  table the previous one left, none skipped; an invocation that does not return ends the
  list.
\<close>

fun depth_runs ::
  "(nat \<Rightarrow> 'b \<Rightarrow> tt \<Rightarrow> (int \<times> 'b \<times> tt) option) \<Rightarrow> nat list \<Rightarrow> 'b \<Rightarrow> tt \<Rightarrow>
   (int \<times> 'b \<times> tt) option list" where
  "depth_runs search [] s t = []"
| "depth_runs search (d # ds) s t =
     (case search d s t of
        None \<Rightarrow> [None]
      | Some (v, s', t') \<Rightarrow> Some (v, s', t') # depth_runs search ds s' t')"

text \<open>An invocation that returned a value that is not decisive.\<close>

definition undecided :: "(int \<times> 'b \<times> tt) option \<Rightarrow> bool" where
  "undecided r = (case r of None \<Rightarrow> False | Some (v, s, t) \<Rightarrow> v \<noteq> 5 \<and> v \<noteq> - 5)"

text \<open>
  The four outcome shapes of a solve: a proven win with the recommended move, a proven
  loss, a draw or heuristic value with the recommended move, and unknown. \<open>report\<close> is the
  text each shape is reported as when \<open>cp\<close> is the side to move: a win names the side to
  move, a loss names its opponent.
\<close>

datatype outcome = ProvenWin string | ProvenLoss | DrawOrHeuristic string | Unknown

fun report :: "color \<Rightarrow> outcome \<Rightarrow> string" where
  "report cp (ProvenWin mv) = (if cp = BLACK then ''b '' else ''w '') @ mv"
| "report cp ProvenLoss = (if cp = BLACK then ''w'' else ''b'')"
| "report cp (DrawOrHeuristic mv) = ''draw '' @ mv"
| "report cp Unknown = ''unknown''"

text \<open>The connections at which the solve command is exercised.\<close>

definition connection_on :: "goboard \<Rightarrow> nat \<Rightarrow> goboard gtp_connection" where
  "connection_on b seconds = \<lparr>board = b, hashTable = empty_tt, time = seconds, genMoveRunning = False\<rparr>"

section \<open>Python's \<^verbatim>\<open>int\<close> reads back what \<^verbatim>\<open>str\<close> writes\<close>

lemma digit_char_props: "d < 10 \<Longrightarrow> is_digit (digit_char d) \<and> digit_val (digit_char d) = d \<and> \<not> is_space (digit_char d)"
  by (auto simp: is_digit_def digit_char_def digit_val_def is_space_def)

lemma digits_acc_str_nat: "digits_acc acc p (str_nat n @ cs) = digits_acc (acc * 10 ^ length (str_nat n) + n) True cs"
proof (induction n arbitrary: acc p cs rule: str_nat.induct)
  case (1 n)
  show ?case
  proof (cases "n < 10")
    case True
    with digit_char_props[of n] show ?thesis by (subst (1 2) str_nat.simps) (simp add: mult.commute)
  next
    case False
    have d: "is_digit (digit_char (n mod 10))" "digit_val (digit_char (n mod 10)) = n mod 10"
      using digit_char_props[of "n mod 10"] by auto
    show ?thesis
      using False d 1[OF False]
      apply (subst (1 2) str_nat.simps)
      apply (simp add: algebra_simps)
      done
  qed
qed

lemma str_nat_hd: "\<exists>c cs. str_nat n = c # cs \<and> is_digit c \<and> \<not> is_space c"
proof (induction n rule: str_nat.induct)
  case (1 n)
  show ?case
  proof (cases "n < 10")
    case True
    with digit_char_props[of n] show ?thesis by (subst str_nat.simps) simp
  next
    case False
    with 1[OF False] show ?thesis by (subst str_nat.simps) auto
  qed
qed

lemma str_nat_last: "\<not> is_space (last (str_nat n)) \<and> str_nat n \<noteq> []"
  using digit_char_props[of n] digit_char_props[of "n mod 10"]
  by (subst (1 2) str_nat.simps) auto

lemma strip_str_nat: "strip (str_nat n) = str_nat n"
proof -
  obtain c cs where h: "str_nat n = c # cs" "\<not> is_space c" using str_nat_hd by blast
  have l: "\<not> is_space (last (str_nat n))" "str_nat n \<noteq> []" using str_nat_last by auto
  have "dropWhile is_space (str_nat n) = str_nat n" using h by simp
  moreover have "dropWhile is_space (rev (str_nat n)) = rev (str_nat n)"
    using l by (cases "rev (str_nat n)") (auto simp: last_rev[symmetric] simp del: last_rev dest: arg_cong[where f=hd] )
  ultimately show ?thesis by (simp add: strip_def)
qed

lemma py_int_digits:
  assumes "strip t = t" "t = c # cs" "is_digit c" "digits_acc 0 False t = Some n"
  shows "py_int t = Inr (int n)"
proof -
  have c: "c \<noteq> CHR ''-''" "c \<noteq> CHR ''+''" using assms(3) by (auto simp: is_digit_def)
  show ?thesis
    unfolding py_int_def assms(1) Let_def
    using c assms(4) by (simp add: assms(2))
qed

lemma py_int_str_nat: "py_int (str_nat n) = Inr (int n)"
proof -
  obtain c cs where h: "str_nat n = c # cs" "is_digit c" using str_nat_hd by blast
  have "digits_acc 0 False (str_nat n @ []) = Some n"
    by (subst digits_acc_str_nat) simp
  then have "digits_acc 0 False (str_nat n) = Some n" by simp
  from py_int_digits[OF strip_str_nat h this] show ?thesis .
qed

lemma py_int_py_str: "0 \<le> i \<Longrightarrow> py_int (py_str i) = Inr i"
  by (simp add: py_str_def py_int_str_nat)

lemma letters: "1 \<le> col \<Longrightarrow> col < 25 \<Longrightarrow> py_index column_letters (col - 1) = Inr c \<Longrightarrow>
   97 \<le> (of_char (lower_char c) :: nat) \<and> (of_char (lower_char c) :: nat) \<le> 122 \<and> lower_char c \<noteq> CHR ''i''
   \<and> (if (of_char (lower_char c) :: nat) < 105 then int (of_char (lower_char c)) - 97 + 1 else int (of_char (lower_char c)) - 97) = col"
proof -
  assume a: "1 \<le> col" "col < 25" "py_index column_letters (col - 1) = Inr c"
  from a(1,2) have "col \<in> {1,2,3,4,5,6,7,8,9,10,11,12,13,14,15,16,17,18,19,20,21,22,23,24}"
    unfolding insert_iff empty_iff by arith
  then show ?thesis using a(3)
    by (elim insertE emptyE) (simp_all add: py_index_def column_letters_def lower_char_def,
        auto dest!: arg_cong[where f="of_char :: char \<Rightarrow> nat"])
qed

section \<open>The move orderer is an insertion sort\<close>

lemma scan_index_eq:
  "index \<le> length om \<Longrightarrow>
   scan_index om h index = index + length (takeWhile (\<lambda>e. snd e > h) (drop index om))"
proof (induction om h index rule: scan_index.induct)
  case (1 orderedMoves heuristic index)
  show ?case
  proof (cases "index < length orderedMoves \<and> snd (orderedMoves ! index) > heuristic")
    case True
    then have d: "drop index orderedMoves = orderedMoves ! index # drop (Suc index) orderedMoves"
      by (simp add: Cons_nth_drop_Suc)
    from True 1 show ?thesis
      by (subst scan_index.simps) (simp add: d)
  next
    case False
    show ?thesis
    proof (cases "index < length orderedMoves")
      case True
      then have d: "drop index orderedMoves = orderedMoves ! index # drop (Suc index) orderedMoves"
        by (simp add: Cons_nth_drop_Suc)
      from True False show ?thesis
        by (subst scan_index.simps) (simp add: d)
    next
      case False
      then show ?thesis using 1(2)
        by (subst scan_index.simps) simp
    qed
  qed
qed

lemma place_move_insort:
  "place_move om m h = insort_key (\<lambda>e. - snd e) (m, h) om"
proof -
  have ins: "insort_key (\<lambda>e. - snd e) (m, h) xs =
        takeWhile (\<lambda>e. snd e > h) xs @ (m, h) # dropWhile (\<lambda>e. snd e > h) xs" for xs
    by (induction xs) auto
  have len: "length (takeWhile (\<lambda>e. snd e > h) om) \<ge> length om \<Longrightarrow> dropWhile (\<lambda>e. snd e > h) om = [] \<and> takeWhile (\<lambda>e. snd e > h) om = om"
    by (metis append_eq_conv_conj append_self_conv drop_all takeWhile_dropWhile_id)
  have len0: "om = [] \<Longrightarrow> ?thesis"
    by (simp add: place_move_def)
  have tk: "take (length (takeWhile P xs)) xs = takeWhile P xs" 
       "drop (length (takeWhile P xs)) xs = dropWhile P xs" for P and xs :: "(nat \<times> int) list"
    by (metis append_eq_conv_conj takeWhile_dropWhile_id)+
  show ?thesis
  proof (cases "om = []")
    case True
    then show ?thesis by (rule len0)
  next
    case False
    show ?thesis
    proof (cases "length (takeWhile (\<lambda>e. snd e > h) om) \<ge> length om")
      case True
      from len[OF True] have a: "dropWhile (\<lambda>e. snd e > h) om = []" "takeWhile (\<lambda>e. snd e > h) om = om"
        by simp_all
      show ?thesis
        unfolding place_move_def ins list_insert_def Let_def a
        using \<open>om \<noteq> []\<close> by (simp add: scan_index_eq a)
    next
      case False
      with \<open>om \<noteq> []\<close> show ?thesis
        unfolding place_move_def ins list_insert_def Let_def
        by (simp add: scan_index_eq tk)
    qed
  qed
qed

lemma orderMoves_loop_eq:
  assumes "undo_restores ops" "set ms \<subseteq> set (get_empty_points ops s)"
  shows "orderMoves_loop ops ms s om =
         (fold (\<lambda>m acc. insort_key (\<lambda>e. - snd e) (m, one_ply ops s m) acc) ms om, s)"
  using assms(2)
proof (induction ms arbitrary: om)
  case Nil
  then show ?case by simp
next
  case (Cons m ms)
  then have "undoMove ops (play_move ops s m (current_player ops s)) = s"
    using assms(1) by (simp add: undo_restores_def)
  with Cons show ?case
    by (simp add: Let_def place_move_insort one_ply_def)
qed

lemma fold_insort_sort_key:
  "fold (\<lambda>m acc. insort_key f (g m) acc) ms [] = sort_key f (map g (rev ms))"
proof -
  have "fold (\<lambda>m acc. insort_key f (g m) acc) ms acc = foldr (insort_key f) (map g (rev ms)) acc" for acc
    by (induction ms arbitrary: acc) (auto)
  then show ?thesis by (simp add: sort_key_def)
qed

lemma orderMoves_eq:
  assumes "undo_restores ops"
  shows "orderMoves ops s =
         (sort_key (\<lambda>e. - snd e) (map (\<lambda>m. (m, one_ply ops s m)) (rev (get_empty_points ops s))), s)"
  unfolding orderMoves_def
  by (simp add: orderMoves_loop_eq[OF assms] fold_insort_sort_key)

lemma orderMoves_set:
  assumes "undo_restores ops"
  shows "fst ` set (fst (orderMoves ops s)) = set (get_empty_points ops s)"
  by (simp add: orderMoves_eq[OF assms] image_image)

section \<open>The searcher returns, and leaves the board as it found it\<close>

lemma undo_restores_D:
  "undo_restores ops \<Longrightarrow> m \<in> set (get_empty_points ops s) \<Longrightarrow>
   undoMove ops (play_move ops s m (current_player ops s)) = s"
  by (simp add: undo_restores_def)

lemma loop_board:
  assumes u: "undo_restores ops"
    and ch: "\<And>s1 t1 a b v s2 t2. child s1 t1 a b = Some (v, s2, t2) \<Longrightarrow> s2 = s1"
  shows "fst ` set oms \<subseteq> set (get_empty_points ops s) \<Longrightarrow>
         alphabeta_tt_loop child ops oms s t alpha beta = Some (v, s', t') \<Longrightarrow> s' = s"
proof (induction oms arbitrary: t alpha)
  case Nil
  then show ?case by simp
next
  case (Cons mh rest)
  let ?p = "play_move ops s (fst mh) (current_player ops s)"
  from Cons.prems(2) obtain v1 s2 t2 where c: "child ?p t (- beta) (- alpha) = Some (v1, s2, t2)"
    by (auto simp: Let_def split: option.splits)
  from ch[OF c] have s2: "s2 = ?p" .
  from Cons.prems(1) have "fst mh \<in> set (get_empty_points ops s)" by simp
  from undo_restores_D[OF u this] s2 have restored: "undoMove ops s2 = s" by simp
  from Cons.prems(1) have sub: "fst ` set rest \<subseteq> set (get_empty_points ops s)" by simp
  show ?case
  proof (cases "- v1 \<ge> beta")
    case True
    with Cons.prems(2) c restored show ?thesis by (simp add: Let_def)
  next
    case False
    with Cons.prems(2) c restored obtain t3 a3 where
      "alphabeta_tt_loop child ops rest s t3 a3 beta = Some (v, s', t')"
      by (simp add: Let_def)
    from Cons.IH[OF sub this] show ?thesis .
  qed
qed

lemma orderMoves_board: "undo_restores ops \<Longrightarrow> snd (orderMoves ops s) = s"
  by (simp add: orderMoves_eq)

lemma alphabeta_tt_board:
  assumes u: "undo_restores ops"
  shows "alphabeta_tt fuel ops s alpha beta t depth depthMove depthLimit = Some (v, s', t') \<Longrightarrow> s' = s"
proof (induction fuel arbitrary: s alpha beta t depth v s' t')
  case 0
  then show ?case by simp
next
  case (Suc fuel)
  show ?case
  proof (cases "(case lookup t (hash ops s) of None \<Rightarrow> False | Some r \<Rightarrow> fst r = Some 5)")
    case True
    with Suc.prems show ?thesis by (simp add: Let_def)
  next
    case nocut: False
    show ?thesis
    proof (cases "endOfGame ops s \<or> depth = depthLimit")
      case True
      with nocut Suc.prems show ?thesis by (simp add: Let_def)
    next
      case False
      obtain oms s1 where om: "orderMoves ops s = (oms, s1)" by (cases "orderMoves ops s")
      with orderMoves_board[OF u, of s] orderMoves_set[OF u, of s]
      have s1: "s1 = s" and sub: "fst ` set oms \<subseteq> set (get_empty_points ops s)" by auto
      from Suc.prems nocut False om s1 have run:
        "alphabeta_tt_loop (\<lambda>s t' a b. alphabeta_tt fuel ops s a b t' (depth + 1) depthMove depthLimit)
           ops oms s t alpha beta = Some (v, s', t')"
        by (simp add: Let_def)
      show ?thesis
        by (rule loop_board[OF u _ sub run]) (rule Suc.IH)
    qed
  qed
qed

lemma loop_returns:
  assumes ch: "\<And>s1 t1 a b. child s1 t1 a b \<noteq> None"
  shows "alphabeta_tt_loop child ops oms s t alpha beta \<noteq> None"
proof (induction oms arbitrary: s t alpha)
  case Nil
  then show ?case by simp
next
  case (Cons mh rest)
  obtain v1 s2 t2 where c: "child (play_move ops s (fst mh) (current_player ops s)) t (- beta) (- alpha) = Some (v1, s2, t2)"
    using ch by (metis option.exhaust prod_cases3)
  show ?case using c Cons.IH by (simp add: Let_def)
qed

lemma alphabeta_tt_returns:
  "depth \<le> depthLimit \<Longrightarrow> depthLimit - depth < fuel \<Longrightarrow>
   alphabeta_tt fuel ops s alpha beta t depth depthMove depthLimit \<noteq> None"
proof (induction fuel arbitrary: s alpha beta t depth)
  case 0
  then show ?case by simp
next
  case (Suc fuel)
  show ?case
  proof (cases "depth = depthLimit")
    case True
    then show ?thesis by (simp add: Let_def)
  next
    case False
    with Suc.prems have "depth + 1 \<le> depthLimit" "depthLimit - (depth + 1) < fuel" by auto
    then have ih: "\<And>s1 t1 a b. alphabeta_tt fuel ops s1 a b t1 (depth + 1) depthMove depthLimit \<noteq> None"
      by (rule Suc.IH)
    obtain oms s1 where om: "orderMoves ops s = (oms, s1)" by (cases "orderMoves ops s")
    have "alphabeta_tt_loop (\<lambda>s t' a b. alphabeta_tt fuel ops s a b t' (depth + 1) depthMove depthLimit)
            ops oms s1 t alpha beta \<noteq> None"
      by (rule loop_returns) (rule ih)
    then show ?thesis
      by (simp add: Let_def om)
  qed
qed

section \<open>The reference board honours the undo contract\<close>

lemma opponent_opponent: "opponent (opponent c) = c"
  by (cases c) simp_all

lemma gomoku_undo_restores: "undo_restores gomoku_ops"
proof -
  have "gb_undoMove (gb_play_move s m (gb_player s)) = s"
    if "m \<in> set (gb_empty_points s)" for s m
  proof -
    from that have "m < length (gb_cells s)" "gb_cells s ! m = EMPTY"
      by (auto simp: gb_empty_points_def)
    then have "(gb_cells s)[m := gb_player s, m := EMPTY] = gb_cells s"
      by (simp add: list_update_same_conv)
    then show ?thesis
      by (simp add: gb_undoMove_def gb_play_move_def opponent_opponent)
  qed
  then show ?thesis
    by (simp add: undo_restores_def gomoku_ops_def)
qed

section \<open>The nesting bound does not change a result\<close>

lemma loop_child_mono:
  assumes "\<And>s1 t1 a b r. child s1 t1 a b = Some r \<Longrightarrow> child' s1 t1 a b = Some r"
  shows "alphabeta_tt_loop child ops oms s t alpha beta = Some r \<Longrightarrow>
         alphabeta_tt_loop child' ops oms s t alpha beta = Some r"
proof (induction oms arbitrary: s t alpha)
  case Nil
  then show ?case by simp
next
  case (Cons mh rest)
  from Cons.prems obtain v s2 t2 where
    c: "child (play_move ops s (fst mh) (current_player ops s)) t (- beta) (- alpha) = Some (v, s2, t2)"
    by (auto simp: Let_def split: option.splits)
  from assms[OF c]
  have c': "child' (play_move ops s (fst mh) (current_player ops s)) t (- beta) (- alpha) = Some (v, s2, t2)" .
  show ?case
  proof (cases "beta \<le> - v")
    case True
    with Cons.prems c c' show ?thesis by (simp add: Let_def)
  next
    case False
    with Cons.prems c c' Cons.IH show ?thesis by (simp add: Let_def)
  qed
qed

text \<open>
  A call that returns with some bound on the nesting returns the same value, board and
  table with any larger bound.
\<close>

lemma alphabeta_tt_fuel_mono:
  "alphabeta_tt fuel ops s alpha beta t depth depthMove depthLimit = Some r \<Longrightarrow>
   alphabeta_tt (fuel + k) ops s alpha beta t depth depthMove depthLimit = Some r"
proof (induction fuel arbitrary: s alpha beta t depth r)
  case 0
  then show ?case by simp
next
  case (Suc fuel)
  show ?case
  proof (cases "(case lookup t (hash ops s) of None \<Rightarrow> False | Some e \<Rightarrow> fst e = Some 5)
                \<or> endOfGame ops s \<or> depth = depthLimit")
    case True
    with Suc.prems show ?thesis by (auto simp: Let_def)
  next
    case False
    obtain oms s1 where om: "orderMoves ops s = (oms, s1)" by (cases "orderMoves ops s")
    from Suc.prems False om have run:
      "alphabeta_tt_loop (\<lambda>s t' a b. alphabeta_tt fuel ops s a b t' (depth + 1) depthMove depthLimit)
         ops oms s1 t alpha beta = Some r"
      by (simp add: Let_def)
    have "alphabeta_tt_loop (\<lambda>s t' a b. alphabeta_tt (fuel + k) ops s a b t' (depth + 1) depthMove depthLimit)
         ops oms s1 t alpha beta = Some r"
      by (rule loop_child_mono[OF _ run]) (rule Suc.IH)
    with False om show ?thesis by (simp add: Let_def)
  qed
qed

section \<open>Claims about the searcher and the move orderer\<close>

text \<open>
  C6. Board restoration. Provided the board's undo takes back a move just played on an
  empty point, the move orderer leaves the board as it found it, every invocation of the
  alpha-beta searcher that returns leaves the board (hence its fingerprint) equal to the
  board before the invocation, and an invocation with depth at most the limit returns
  whenever the nesting bound exceeds the remaining depth.
\<close>
theorem search_restores_board:
  assumes "undo_restores ops"
  shows "snd (orderMoves ops s) = s
       \<and> (\<forall>v s' t'. alphabeta_tt fuel ops s alpha beta t depth depthMove depthLimit = Some (v, s', t')
            \<longrightarrow> s' = s \<and> hash ops s' = hash ops s)
       \<and> (depth \<le> depthLimit \<and> depthLimit - depth < fuel
            \<longrightarrow> alphabeta_tt fuel ops s alpha beta t depth depthMove depthLimit \<noteq> None)"
proof (intro conjI allI impI)
  show "snd (orderMoves ops s) = s"
    by (rule orderMoves_board[OF assms])
next
  fix v s' t'
  assume r: "alphabeta_tt fuel ops s alpha beta t depth depthMove depthLimit = Some (v, s', t')"
  then show "s' = s" by (rule alphabeta_tt_board[OF assms])
  then show "hash ops s' = hash ops s" by simp
next
  assume "depth \<le> depthLimit \<and> depthLimit - depth < fuel"
  then show "alphabeta_tt fuel ops s alpha beta t depth depthMove depthLimit \<noteq> None"
    by (simp add: alphabeta_tt_returns)
qed

theorem search_restores_board_witness:
  "undo_restores gomoku_ops
   \<and> snd (orderMoves gomoku_ops board_black_wins) = board_black_wins
   \<and> (\<exists>t'. alphabeta_tt 2 gomoku_ops board_black_wins (- 1000) 1000 empty_tt 0 1000 1
             = Some (5, board_black_wins, t'))"
proof -
  have v: "map_option fst (alphabeta_tt 2 gomoku_ops board_black_wins (- 1000) 1000 empty_tt 0 1000 1) = Some 5"
    by code_simp
  then obtain s' t' where
    r: "alphabeta_tt 2 gomoku_ops board_black_wins (- 1000) 1000 empty_tt 0 1000 1 = Some (5, s', t')"
    by auto
  from search_restores_board[OF gomoku_undo_restores, of board_black_wins 2 "- 1000" 1000 empty_tt 0 1000 1] r
  show ?thesis using gomoku_undo_restores by auto
qed

text \<open>
  C5, as amended. Provided the board's undo takes back a move just played on an empty
  point, the move orderer returns every empty point exactly once, paired with the static
  evaluation of the position after that move, in descending order of that evaluation;
  among moves with equal evaluation the board enumeration order is reversed: the result
  is the stable sort of the reversed enumeration.
\<close>
theorem orderMoves_sorted_ties_reversed:
  assumes "undo_restores ops"
  shows "fst (orderMoves ops s)
           = sort_key (\<lambda>e. - snd e) (map (\<lambda>m. (m, one_ply ops s m)) (rev (get_empty_points ops s)))
       \<and> mset (map fst (fst (orderMoves ops s))) = mset (get_empty_points ops s)
       \<and> sorted_wrt (\<lambda>a b. snd a \<ge> snd b) (fst (orderMoves ops s))
       \<and> (\<forall>e \<in> set (fst (orderMoves ops s)). snd e = one_ply ops s (fst e))"
proof -
  let ?xs = "map (\<lambda>m. (m, one_ply ops s m)) (rev (get_empty_points ops s))"
  have e: "fst (orderMoves ops s) = sort_key (\<lambda>e. - snd e) ?xs"
    by (simp add: orderMoves_eq[OF assms])
  have "mset (map fst (sort_key (\<lambda>e. - snd e) ?xs)) = mset (map fst ?xs)"
    by (metis mset_map mset_sort)
  then have m: "mset (map fst (fst (orderMoves ops s))) = mset (get_empty_points ops s)"
    by (simp add: e comp_def)
  have "sorted (map (\<lambda>e. - snd e) (sort_key (\<lambda>e. - snd e) ?xs))"
    by (rule sorted_sort_key)
  then have st: "sorted_wrt (\<lambda>a b. snd a \<ge> snd b) (fst (orderMoves ops s))"
    by (simp add: e sorted_map sorted_wrt_iff_nth_less)
  have h: "\<forall>e \<in> set (fst (orderMoves ops s)). snd e = one_ply ops s (fst e)"
    by (auto simp: e)
  from e m st h show ?thesis by blast
qed

theorem orderMoves_sorted_ties_reversed_witness:
  "undo_restores gomoku_ops
   \<and> get_empty_points gomoku_ops board_2x2_open = [4, 5, 7, 8]
   \<and> fst (orderMoves gomoku_ops board_2x2_open) = [(8, 0), (7, 0), (5, 0), (4, 0)]"
proof -
  have p: "get_empty_points gomoku_ops board_2x2_open = [4, 5, 7, 8]" by code_simp
  have o: "map (one_ply gomoku_ops board_2x2_open) [8, 7, 5, 4] = [0, 0, 0, 0]" by code_simp
  from orderMoves_sorted_ties_reversed[OF gomoku_undo_restores, of board_2x2_open]
  have "fst (orderMoves gomoku_ops board_2x2_open)
        = sort_key (\<lambda>e. - snd e) (map (\<lambda>m. (m, one_ply gomoku_ops board_2x2_open m)) (rev (get_empty_points gomoku_ops board_2x2_open)))"
    by blast
  with p o show ?thesis using gomoku_undo_restores by simp
qed

text \<open>
  C5 as stated fails: on the open 2x2 board all four moves have evaluation 0, the
  enumeration is 4, 5, 7, 8 and the orderer returns 8, 7, 5, 4, which is not the stable
  sort of the enumeration.
\<close>

theorem orderMoves_not_stable_counterexample:
  "map snd (fst (orderMoves gomoku_ops board_2x2_open)) = [0, 0, 0, 0]
   \<and> get_empty_points gomoku_ops board_2x2_open = [4, 5, 7, 8]
   \<and> map fst (fst (orderMoves gomoku_ops board_2x2_open)) \<noteq> get_empty_points gomoku_ops board_2x2_open
   \<and> fst (orderMoves gomoku_ops board_2x2_open)
       \<noteq> sort_key (\<lambda>e. - snd e)
            (map (\<lambda>m. (m, one_ply gomoku_ops board_2x2_open m)) (get_empty_points gomoku_ops board_2x2_open))"
  by code_simp

section \<open>Claims about the driver and the cutoffs\<close>

lemma iterativeDeepening_loop_runs:
  "iterativeDeepening_loop fuel ops INFINITY ds result s t =
     (let runs = depth_runs (\<lambda>d s t. alphabeta_tt fuel ops s (- INFINITY) INFINITY t 0 INFINITY d) ds s t
      in case dropWhile undecided runs of
           r # rs \<Rightarrow> r
         | [] \<Rightarrow> (if runs = [] then Some (result, s, t) else last runs))"
proof (induction ds arbitrary: result s t)
  case Nil
  then show ?case by simp
next
  case (Cons d ds)
  show ?case
  proof (cases "alphabeta_tt fuel ops s (- INFINITY) INFINITY t 0 INFINITY d")
    case None
    then show ?thesis by (simp add: undecided_def)
  next
    case (Some r)
    obtain v s' t' where r: "r = (v, s', t')" by (cases r)
    show ?thesis
    proof (cases "v = 5 \<or> v = - 5")
      case True
      then have "\<not> undecided (Some (v, s', t'))" by (auto simp: undecided_def)
      with True Some r show ?thesis by simp
    next
      case False
      let ?runs = "depth_runs (\<lambda>d s t. alphabeta_tt fuel ops s (- INFINITY) INFINITY t 0 INFINITY d) ds s' t'"
      from False have u: "undecided (Some (v, s', t'))"
        by (simp add: undecided_def)
      have l: "iterativeDeepening_loop fuel ops INFINITY (d # ds) result s t
            = iterativeDeepening_loop fuel ops INFINITY ds v s' t'"
        using Some r False by simp
      have m: "iterativeDeepening_loop fuel ops INFINITY ds v s' t'
             = (case dropWhile undecided ?runs of
                          r # rs \<Rightarrow> r
                        | [] \<Rightarrow> (if ?runs = [] then Some (v, s', t') else last ?runs))"
        using Cons.IH[of v s' t'] by (simp add: Let_def)
      have n: "(let runs = depth_runs (\<lambda>d s t. alphabeta_tt fuel ops s (- INFINITY) INFINITY t 0 INFINITY d) (d # ds) s t
                in case dropWhile undecided runs of
                     r # rs \<Rightarrow> r
                   | [] \<Rightarrow> (if runs = [] then Some (result, s, t) else last runs))
             = (case dropWhile undecided ?runs of
                          r # rs \<Rightarrow> r
                        | [] \<Rightarrow> (if ?runs = [] then Some (v, s', t') else last ?runs))"
        using Some r u by (simp add: Let_def del: dropWhile_eq_Nil_conv cong: list.case_cong)
      show ?thesis unfolding l m n ..
    qed
  qed
qed

text \<open>
  C1. For every starting state the driver's outcome is read off the successive searcher
  invocations with the full window \<open>(- INFINITY, INFINITY)\<close>, depth 0 and the depth limits
  1 up to the number of empty points, each run on the board and table the previous one
  left: it is the outcome of the first invocation that is decisive (value 5 or - 5), with
  the board and table as that invocation left them, so nothing runs after it; when no
  invocation is decisive it is the outcome of the last, deepest one. (An invocation that
  does not return ends the driver without a value; with no empty point there is no
  invocation and the initial value stands.)
\<close>

theorem iterativeDeepening_runs:
  "iterativeDeepening fuel ops INFINITY s t =
     (let runs = depth_runs (\<lambda>d s t. alphabeta_tt fuel ops s (- INFINITY) INFINITY t 0 INFINITY d)
                   [1 ..< length (get_empty_points ops s) + 1] s t
      in case dropWhile undecided runs of
           r # rs \<Rightarrow> r
         | [] \<Rightarrow> (if runs = [] then Some (1, s, t) else last runs))"
  unfolding iterativeDeepening_def by (rule iterativeDeepening_loop_runs)

theorem iterativeDeepening_runs_witness:
  "map (map_option fst)
     (depth_runs (\<lambda>d s t. alphabeta_tt 5 gomoku_ops s (- 1000) 1000 t 0 1000 d)
        [1 ..< length (get_empty_points gomoku_ops board_black_wins) + 1] board_black_wins empty_tt)
     = [Some 5, Some 5]
   \<and> map_option fst (iterativeDeepening 5 gomoku_ops 1000 board_black_wins empty_tt) = Some 5
   \<and> map (map_option fst)
     (depth_runs (\<lambda>d s t. alphabeta_tt 5 gomoku_ops s (- 1000) 1000 t 0 1000 d)
        [1 ..< length (get_empty_points gomoku_ops board_2x2_half) + 1] board_2x2_half empty_tt)
     = [Some 0, Some 0]
   \<and> map_option fst (iterativeDeepening 5 gomoku_ops 1000 board_2x2_half empty_tt) = Some 0"
  unfolding iterativeDeepening_runs[of 5 gomoku_ops 1000]
  by code_simp

text \<open>
  C2, as amended. For every state, when the entry the table holds for the state's
  fingerprint records the value 5 (a proven win), the searcher returns 5 at once, with
  the board and the table untouched, whatever the window, the depth and the depth limit.
  An entry recording - 5 is not tested and causes no cutoff.
\<close>
theorem tt_cutoff_on_proven_win:
  assumes "lookup t (hash ops s) = Some (Some 5, mv)"
  shows "alphabeta_tt (Suc fuel) ops s alpha beta t depth depthMove depthLimit = Some (5, s, t)"
  using assms by simp

theorem tt_cutoff_on_proven_win_witness:
  "lookup (tt_storeScore empty_tt (hash gomoku_ops board_2x2_open) 5) (hash gomoku_ops board_2x2_open)
     = Some (Some 5, PASS)
   \<and> alphabeta_tt (Suc 0) gomoku_ops board_2x2_open (- 1000) 1000
        (tt_storeScore empty_tt (hash gomoku_ops board_2x2_open) 5) 0 1000 4
     = Some (5, board_2x2_open, tt_storeScore empty_tt (hash gomoku_ops board_2x2_open) 5)"
proof -
  have l: "lookup (tt_storeScore empty_tt (hash gomoku_ops board_2x2_open) 5) (hash gomoku_ops board_2x2_open)
     = Some (Some 5, PASS)"
    by (simp add: lookup_def tt_storeScore_def empty_tt_def)
  from tt_cutoff_on_proven_win[OF l] l show ?thesis by simp
qed

text \<open>
  C2 as stated fails for a proven loss. In the position \<open>board_black_lost\<close> a search with
  the full window and depth limit 2 returns - 5 and records - 5 for the position. Called
  again on that position with that table and the window (0, 5), the searcher does not
  return the recorded - 5: it expands the node and returns 0.
\<close>

theorem tt_no_cutoff_on_proven_loss_counterexample:
  "(case alphabeta_tt 3 gomoku_ops board_black_lost (- 1000) 1000 empty_tt 0 1000 2 of
      None \<Rightarrow> False
    | Some (v, s, t1) \<Rightarrow>
        v = - 5
        \<and> map_option fst (lookup t1 (hash gomoku_ops board_black_lost)) = Some (Some (- 5))
        \<and> map_option fst (alphabeta_tt 3 gomoku_ops board_black_lost 0 5 t1 0 1000 2) = Some 0)"
  by code_simp

text \<open>
  C4. In every pass of the searcher's loop over the candidate moves (the remaining
  candidates \<open>mh # rest\<close>, the current board, table and alpha): the child is the position
  after the move, evaluated with the window \<open>(- beta, - alpha)\<close>, and its value \<open>v\<close> is
  negated back; if \<open>- v\<close> reaches or exceeds beta, the loop ends there with result beta,
  the table records beta (not \<open>- v\<close>) for the position after the undo, and the result is
  the same whatever candidates remained, so none of them is expanded.
\<close>
theorem beta_cutoff:
  assumes "child (play_move ops s (fst mh) (current_player ops s)) t (- beta) (- alpha) = Some (v, s2, t2)"
    and "- v \<ge> beta"
  shows "\<exists>t3. alphabeta_tt_loop child ops (mh # rest) s t alpha beta = Some (beta, undoMove ops s2, t3)
            \<and> scores t3 (hash ops (undoMove ops s2)) = Some beta
            \<and> alphabeta_tt_loop child ops (mh # rest') s t alpha beta = Some (beta, undoMove ops s2, t3)"
  using assms by (simp add: Let_def storeScore_def tt_storeScore_def)

theorem beta_cutoff_witness:
  "(\<exists>s2 t2 t3.
      alphabeta_tt 1 gomoku_ops (play_move gomoku_ops board_black_wins 11 (current_player gomoku_ops board_black_wins))
        (- 0) (- (- 1000)) empty_tt 1 1000 1 = Some (- 5, s2, t2)
    \<and> (0::int) \<le> - (- 5)
    \<and> alphabeta_tt_loop (\<lambda>s t' a b. alphabeta_tt 1 gomoku_ops s a b t' 1 1000 1) gomoku_ops
        [(11, - 5), (17, 0)] board_black_wins empty_tt (- 1000) 0 = Some (0, undoMove gomoku_ops s2, t3)
    \<and> scores t3 (hash gomoku_ops (undoMove gomoku_ops s2)) = Some 0)"
proof -
  have "map_option fst (alphabeta_tt 1 gomoku_ops (play_move gomoku_ops board_black_wins 11 (current_player gomoku_ops board_black_wins))
        (- 0) (- (- 1000)) empty_tt 1 1000 1) = Some (- 5)"
    by code_simp
  then obtain s2 t2 where c: "alphabeta_tt 1 gomoku_ops (play_move gomoku_ops board_black_wins (fst (11::nat, - 5::int)) (current_player gomoku_ops board_black_wins))
        (- 0) (- (- 1000)) empty_tt 1 1000 1 = Some (- 5, s2, t2)"
    by auto
  have b: "(0::int) \<le> - (- 5)" by simp
  from beta_cutoff[where child = "\<lambda>s t' a b. alphabeta_tt 1 gomoku_ops s a b t' 1 1000 1", OF c b, of "[(17, 0)]" "[]"] c
  show ?thesis by auto
qed

section \<open>The driver on a terminal root\<close>

lemma terminal_search:
  assumes "endOfGame ops s" "map_option fst (lookup t (hash ops s)) \<noteq> Some (Some 5)"
  shows "alphabeta_tt (Suc fuel) ops s alpha beta t depth depthMove depthLimit
         = Some (staticallyEvaluateForToPlay ops s, s,
                 storeScore ops t s (staticallyEvaluateForToPlay ops s))"
proof (cases "lookup t (hash ops s)")
  case None
  with assms(1) show ?thesis by (simp add: Let_def)
next
  case (Some r)
  with assms(2) have "fst r \<noteq> Some 5" by simp
  with Some assms(1) show ?thesis by (simp add: Let_def)
qed

lemma storeScore_idem: "storeScore ops (storeScore ops t s v) s v = storeScore ops t s v"
  by (simp add: storeScore_def tt_storeScore_def)

lemma lookup_storeScore: "map_option fst (lookup (storeScore ops t s v) (hash ops s)) = Some (Some v)"
  by (simp add: storeScore_def tt_storeScore_def lookup_def)

lemma terminal_loop:
  assumes e: "endOfGame ops s"
  shows "ds \<noteq> [] \<Longrightarrow> map_option fst (lookup t (hash ops s)) \<noteq> Some (Some 5) \<Longrightarrow>
         iterativeDeepening_loop (Suc fuel) ops INFINITY ds v s t
         = Some (staticallyEvaluateForToPlay ops s, s,
                 storeScore ops t s (staticallyEvaluateForToPlay ops s))"
proof (induction ds arbitrary: v t)
  case Nil
  then show ?case by simp
next
  case (Cons d ds)
  let ?e = "staticallyEvaluateForToPlay ops s"
  let ?t1 = "storeScore ops t s ?e"
  have first: "alphabeta_tt (Suc fuel) ops s (- INFINITY) INFINITY t 0 INFINITY d = Some (?e, s, ?t1)"
    by (rule terminal_search[OF e Cons.prems(2)])
  show ?case
  proof (cases "?e = 5 \<or> ?e = - 5")
    case True
    show ?thesis
      by (simp only: iterativeDeepening_loop.simps first option.case prod.case True if_True)
  next
    case False
    have step: "iterativeDeepening_loop (Suc fuel) ops INFINITY (d # ds) v s t
                = iterativeDeepening_loop (Suc fuel) ops INFINITY ds ?e s ?t1"
      by (simp only: iterativeDeepening_loop.simps first option.case prod.case False if_False)
    show ?thesis
    proof (cases "ds = []")
      case True
      show ?thesis using step by (simp only: True iterativeDeepening_loop.simps(1))
    next
      case nonempty: False
      from False have "map_option fst (lookup ?t1 (hash ops s)) \<noteq> Some (Some 5)"
        by (simp only: lookup_storeScore) simp
      from Cons.IH[OF nonempty this, of ?e] show ?thesis
        unfolding step by (simp only: storeScore_idem)
    qed
  qed
qed

text \<open>
  C8, as amended. The driver itself does not test whether the root is terminal. For a
  root with no empty point it makes no searcher invocation and leaves board and table
  as they are. For a terminal root that has an empty point (a five-in-a-row exists), and
  for which the table records no proven win, it invokes the searcher, which returns the
  static evaluation at once without expanding a move and records it in the table; the
  driver returns that terminal evaluation.
\<close>

theorem terminal_root:
  "(get_empty_points ops s = [] \<longrightarrow> (\<exists>v. iterativeDeepening fuel ops INFINITY s t = Some (v, s, t)))
   \<and> (endOfGame ops s \<and> get_empty_points ops s \<noteq> []
        \<and> map_option fst (lookup t (hash ops s)) \<noteq> Some (Some 5)
      \<longrightarrow> iterativeDeepening (Suc fuel) ops INFINITY s t
            = Some (staticallyEvaluateForToPlay ops s, s,
                    storeScore ops t s (staticallyEvaluateForToPlay ops s)))"
proof (intro conjI impI)
  assume "get_empty_points ops s = []"
  then show "\<exists>v. iterativeDeepening fuel ops INFINITY s t = Some (v, s, t)"
    by (simp add: iterativeDeepening_def)
next
  assume a: "endOfGame ops s \<and> get_empty_points ops s \<noteq> []
        \<and> map_option fst (lookup t (hash ops s)) \<noteq> Some (Some 5)"
  then have ne: "[1 ..< length (get_empty_points ops s) + 1] \<noteq> []"
    by (cases "get_empty_points ops s") simp_all
  from a have e: "endOfGame ops s"
    and l: "map_option fst (lookup t (hash ops s)) \<noteq> Some (Some 5)"
    by simp_all
  show "iterativeDeepening (Suc fuel) ops INFINITY s t
        = Some (staticallyEvaluateForToPlay ops s, s,
                storeScore ops t s (staticallyEvaluateForToPlay ops s))"
    unfolding iterativeDeepening_def by (rule terminal_loop[OF e ne l])
qed

theorem terminal_root_witness:
  "get_empty_points gomoku_ops board_2x2_full = []
   \<and> (\<exists>v. iterativeDeepening 5 gomoku_ops 1000 board_2x2_full empty_tt
             = Some (v, board_2x2_full, empty_tt))
   \<and> endOfGame gomoku_ops board_black_won
   \<and> get_empty_points gomoku_ops board_black_won \<noteq> []
   \<and> map_option fst (lookup empty_tt (hash gomoku_ops board_black_won)) \<noteq> Some (Some 5)
   \<and> staticallyEvaluateForToPlay gomoku_ops board_black_won = - 5
   \<and> iterativeDeepening (Suc 4) gomoku_ops 1000 board_black_won empty_tt
       = Some (- 5, board_black_won, storeScore gomoku_ops empty_tt board_black_won (- 5))"
proof -
  have a: "get_empty_points gomoku_ops board_2x2_full = []" by code_simp
  have b: "endOfGame gomoku_ops board_black_won" by code_simp
  have c: "get_empty_points gomoku_ops board_black_won \<noteq> []" by code_simp
  have d: "map_option fst (lookup empty_tt (hash gomoku_ops board_black_won)) \<noteq> Some (Some 5)"
    by (simp add: lookup_def empty_tt_def)
  have e: "staticallyEvaluateForToPlay gomoku_ops board_black_won = - 5" by code_simp
  from terminal_root[of gomoku_ops board_2x2_full 5 1000 empty_tt] a
  have f: "\<exists>v. iterativeDeepening 5 gomoku_ops 1000 board_2x2_full empty_tt
             = Some (v, board_2x2_full, empty_tt)" by blast
  from terminal_root[of gomoku_ops board_black_won 4 1000 empty_tt] b c d
  have "iterativeDeepening (Suc 4) gomoku_ops 1000 board_black_won empty_tt
       = Some (staticallyEvaluateForToPlay gomoku_ops board_black_won, board_black_won,
               storeScore gomoku_ops empty_tt board_black_won (staticallyEvaluateForToPlay gomoku_ops board_black_won))"
    by blast
  then have g: "iterativeDeepening (Suc 4) gomoku_ops 1000 board_black_won empty_tt
       = Some (- 5, board_black_won, storeScore gomoku_ops empty_tt board_black_won (- 5))"
    by (simp only: e)
  show ?thesis
    by (intro conjI) (rule a f b c d e g)+
qed

text \<open>
  C8 as stated fails on both kinds of terminal root. On the full 2x2 board the static
  evaluation is 0 and the driver returns 1. On \<open>board_black_won\<close>, where Black has five in
  a row and one point is empty, the driver does invoke the searcher: the table, empty
  before, holds the entry - 5 for the root afterwards, which only the searcher writes.
\<close>

theorem terminal_root_counterexample:
  "endOfGame gomoku_ops board_2x2_full
   \<and> staticallyEvaluateForToPlay gomoku_ops board_2x2_full = 0
   \<and> map_option fst (iterativeDeepening 5 gomoku_ops 1000 board_2x2_full empty_tt) = Some 1
   \<and> endOfGame gomoku_ops board_black_won
   \<and> lookup empty_tt (hash gomoku_ops board_black_won) = None
   \<and> map_option (\<lambda>(v, s, t'). lookup t' (hash gomoku_ops board_black_won))
        (iterativeDeepening 5 gomoku_ops 1000 board_black_won empty_tt)
       = Some (Some (Some (- 5), PASS))"
  by code_simp

section \<open>Coordinates: the round trip and where it breaks\<close>

lemma str_nat_digits: "\<forall>c \<in> set (str_nat n). is_digit c"
proof (induction n rule: str_nat.induct)
  case (1 n)
  show ?case
  proof (cases "n < 10")
    case True
    with digit_char_props[of n] show ?thesis by (subst str_nat.simps) simp
  next
    case False
    with 1[OF False] digit_char_props[of "n mod 10"] show ?thesis
      by (subst str_nat.simps) simp
  qed
qed

lemma lower_str_nat: "lower (str_nat n) = str_nat n"
proof -
  have "lower_char c = c" if "is_digit c" for c
    using that by (simp add: lower_char_def is_digit_def)
  with str_nat_digits[of n] show ?thesis
    by (simp add: lower_def map_idI)
qed

text \<open>
  Away from the last line the round trip holds: for \<open>1 \<le> row, col \<le> board_size\<close> with
  \<open>row\<close> and \<open>col\<close> below \<open>MAXSIZE\<close>, parsing the formatted point gives the pair back.
\<close>

lemma format_then_parse:
  assumes "MAXSIZE \<le> 25" "2 \<le> board_size" "board_size \<le> MAXSIZE"
    and "1 \<le> row" "row \<le> board_size" "row < MAXSIZE"
    and "1 \<le> col" "col \<le> board_size" "col < MAXSIZE"
  shows "\<exists>s. format_point MAXSIZE (Move (row, col)) = Inr s
             \<and> move_to_coord MAXSIZE s board_size = Inr (Move (row, col))"
proof -
  from assms have c25: "col < 25" by simp
  with assms(7) obtain c where c: "py_index column_letters (col - 1) = Inr c"
    by (simp add: py_index_def column_letters_def)
  note L = letters[OF assms(7) c25 c]
  have row: "py_str row = str_nat (nat row)" using assms(4) by (simp add: py_str_def)
  have f: "format_point MAXSIZE (Move (row, col)) = Inr (c # str_nat (nat row))"
    using assms c by (simp add: format_point_def row)
  have low: "lower (c # str_nat (nat row)) = lower_char c # str_nat (nat row)"
    using lower_str_nat[of "nat row"] by (simp add: lower_def)
  obtain d ds where d: "str_nat (nat row) = d # ds" "is_digit d"
    using str_nat_hd by blast
  have np: "lower_char c # str_nat (nat row) \<noteq> ''pass''"
    using d by (auto simp: is_digit_def)
  have pi: "py_int (str_nat (nat row)) = Inr row"
    using py_int_str_nat[of "nat row"] assms(4) by simp
  have "move_to_coord MAXSIZE (c # str_nat (nat row)) board_size = Inr (Move (row, col))"
    unfolding move_to_coord_def low
    using assms L np pi by (simp add: Let_def)
  with f show ?thesis by blast
qed

text \<open>\<^verbatim>\<open>PASS\<close> is written as "PASS" and read back, in any letter case.\<close>

lemma pass_round_trip:
  assumes "MAXSIZE \<le> 25" "2 \<le> board_size" "board_size \<le> MAXSIZE"
  shows "format_point MAXSIZE PASS = Inr ''PASS''
       \<and> move_to_coord MAXSIZE ''PASS'' board_size = Inr PASS
       \<and> move_to_coord MAXSIZE ''pass'' board_size = Inr PASS"
proof -
  have l: "lower ''PASS'' = ''pass''" "lower ''pass'' = ''pass''"
    by code_simp+
  show ?thesis
    using assms by (simp add: format_point_def move_to_coord_def l)
qed

text \<open>
  C10. The claimed round trip for every \<open>1 \<le> row, col \<le> board_size \<le> MAXSIZE\<close> breaks
  on the last line of the largest board. Whatever \<open>MAXSIZE\<close> is, \<^verbatim>\<open>format_point\<close> raises
  for a point whose row or column equals \<open>MAXSIZE\<close>, because it tests
  \<open>0 \<le> row < MAXSIZE\<close> where the coordinates run from 1 to \<open>MAXSIZE\<close>; with
  \<open>MAXSIZE = 25\<close> the point (25, 25), which \<^verbatim>\<open>move_to_coord\<close> produces from "Z25" on a
  board of size 25, is rejected, while the out-of-range point (0, 0) is formatted as
  "Z0".
\<close>

theorem format_point_rejects_last_line:
  "(\<exists>e. format_point MAXSIZE (Move (MAXSIZE, col)) = Inl e)
   \<and> (\<exists>e. format_point MAXSIZE (Move (row, MAXSIZE)) = Inl e)
   \<and> move_to_coord 25 ''Z25'' 25 = Inr (Move (25, 25))
   \<and> format_point 25 (Move (25, 25)) = Inl (ValueError [])
   \<and> format_point 25 (Move (0, 0)) = Inr ''Z0''"
proof (intro conjI)
  show "\<exists>e. format_point MAXSIZE (Move (MAXSIZE, col)) = Inl e"
    by (simp add: format_point_def)
  show "\<exists>e. format_point MAXSIZE (Move (row, MAXSIZE)) = Inl e"
    by (simp add: format_point_def)
  show "move_to_coord 25 ''Z25'' 25 = Inr (Move (25, 25))"
    by code_simp
  show "format_point 25 (Move (25, 25)) = Inl (ValueError [])"
    by (simp add: format_point_def)
  show "format_point 25 (Move (0, 0)) = Inr ''Z0''"
    by code_simp
qed

theorem format_point_rejects_last_line_witness:
  "(\<exists>e. format_point 25 (Move (25, 3)) = Inl e)
   \<and> (\<exists>e. format_point 25 (Move (3, 25)) = Inl e)"
  using format_point_rejects_last_line[of 25 3 3] by blast

section \<open>Claims about the solve command\<close>

lemma report_inj:
  assumes "cp = BLACK \<or> cp = WHITE" "report cp out = report cp out'"
  shows "out = out'"
  using assms by (cases out; cases out'; auto)

lemma solve_try_keeps:
  "solve_try MAXSIZE INFINITY fuel ops self expired = Inl (e, c) \<Longrightarrow>
     board c = board self \<and> time c = time self \<and> genMoveRunning c = genMoveRunning self"
  "solve_try MAXSIZE INFINITY fuel ops self expired = Inr (result, mv, m, c) \<Longrightarrow>
     board c = board self \<and> time c = time self \<and> genMoveRunning c = genMoveRunning self"
  unfolding solve_try_def
  by (auto simp: Let_def split: if_splits option.splits sum.splits)

text \<open>
  C3. For every state and time budget, when the solve command is not running on behalf
  of genmove and the side to move is Black or White, it responds with exactly one of the
  four outcome shapes: unknown when the \<^verbatim>\<open>try\<close> block raises (the timer is delivered, the
  search does not return, the result cannot be read back or formatted); otherwise a
  proven win for the side to move with the recommended move when the search result is
  5, a win for the opponent, without a move, when it is - 5, and a draw with the
  recommended move for every other result. Distinct shapes are reported as distinct
  texts, so the response determines the shape.
\<close>

theorem solve_outcome_shapes:
  assumes "genMoveRunning self = False"
    and "cp = current_player ops (board self)"
    and "cp = BLACK \<or> cp = WHITE"
  shows "response (solve_cmd MAXSIZE INFINITY fuel ops self expired)
           = Some (report cp
                    (case solve_try MAXSIZE INFINITY fuel ops self expired of
                       Inl raised \<Rightarrow> Unknown
                     | Inr (result, mv, m, c) \<Rightarrow>
                         if result = 5 then ProvenWin mv
                         else if result = - 5 then ProvenLoss
                         else DrawOrHeuristic mv))
       \<and> (\<forall>out out'. report cp out = report cp out' \<longrightarrow> out = out')"
proof
  show "response (solve_cmd MAXSIZE INFINITY fuel ops self expired)
           = Some (report cp
                    (case solve_try MAXSIZE INFINITY fuel ops self expired of
                       Inl raised \<Rightarrow> Unknown
                     | Inr (result, mv, m, c) \<Rightarrow>
                         if result = 5 then ProvenWin mv
                         else if result = - 5 then ProvenLoss
                         else DrawOrHeuristic mv))"
  proof (cases "solve_try MAXSIZE INFINITY fuel ops self expired")
    case (Inl raised)
    obtain e c where r: "raised = (e, c)" by (cases raised)
    from solve_try_keeps(1)[of MAXSIZE INFINITY fuel ops self expired e c] Inl r assms(1)
    have "genMoveRunning c = False" by simp
    with Inl r show ?thesis
      by (simp add: solve_cmd_def solve_except_def)
  next
    case (Inr finished)
    obtain result mv m c where r: "finished = (result, mv, m, c)" by (cases finished)
    from solve_try_keeps(2)[of MAXSIZE INFINITY fuel ops self expired result mv m c] Inr r assms(1)
    have g: "genMoveRunning c = False" by simp
    from assms(3) show ?thesis
    proof
      assume "cp = BLACK"
      with Inr r g assms(2) show ?thesis by (simp add: solve_cmd_def)
    next
      assume "cp = WHITE"
      with Inr r g assms(2) show ?thesis by (simp add: solve_cmd_def)
    qed
  qed
  show "\<forall>out out'. report cp out = report cp out' \<longrightarrow> out = out'"
    using report_inj[OF assms(3)] by blast
qed

theorem solve_outcome_shapes_witness:
  "response (solve_cmd 25 1000 5 gomoku_ops (connection_on board_black_wins 2) False) = Some ''b E1''
   \<and> response (solve_cmd 25 1000 5 gomoku_ops (connection_on board_black_lost 2) False) = Some ''w''
   \<and> response (solve_cmd 25 1000 5 gomoku_ops (connection_on board_2x2_half 2) False) = Some ''draw B2''
   \<and> response (solve_cmd 25 1000 5 gomoku_ops (connection_on board_black_wins 2) True) = Some ''unknown''"
proof -
  have g: "genMoveRunning (connection_on b n) = False" for b n
    by (simp add: connection_on_def)
  have p: "BLACK = current_player gomoku_ops (board (connection_on board_black_wins 2))"
          "BLACK = current_player gomoku_ops (board (connection_on board_black_lost 2))"
          "BLACK = current_player gomoku_ops (board (connection_on board_2x2_half 2))"
    by code_simp+
  have c: "map_sum fst (\<lambda>(result, mv, m, c). (result, mv, m))
             (solve_try 25 1000 5 gomoku_ops (connection_on board_black_wins 2) False) = Inr (5, ''E1'', Move 11)"
          "map_sum fst (\<lambda>(result, mv, m, c). (result, mv, m))
             (solve_try 25 1000 5 gomoku_ops (connection_on board_black_lost 2) False) = Inr (- 5, ''E2'', Move 17)"
          "map_sum fst (\<lambda>(result, mv, m, c). (result, mv, m))
             (solve_try 25 1000 5 gomoku_ops (connection_on board_2x2_half 2) False) = Inr (0, ''B2'', Move 8)"
          "map_sum fst (\<lambda>(result, mv, m, c). (result, mv, m))
             (solve_try 25 1000 5 gomoku_ops (connection_on board_black_wins 2) True) = Inl handler"
    by code_simp+
  have v: "map_sum fst (\<lambda>(result, mv, m, c). (result, mv, m)) x = Inr (result, mv, m)
           \<Longrightarrow> \<exists>c. x = Inr (result, mv, m, c)"
          "map_sum fst (\<lambda>(result, mv, m, c). (result, mv, m)) x = Inl e
           \<Longrightarrow> \<exists>c. x = Inl (e, c)"
    for x :: "(error \<times> goboard gtp_connection) + (int \<times> string \<times> point \<times> goboard gtp_connection)"
      and result mv m e
    by (cases x; auto)+
  from v(1)[OF c(1)] v(1)[OF c(2)] v(1)[OF c(3)] v(2)[OF c(4)]
       solve_outcome_shapes[OF g p(1), of 25 1000 5 False]
       solve_outcome_shapes[OF g p(2), of 25 1000 5 False]
       solve_outcome_shapes[OF g p(3), of 25 1000 5 False]
       solve_outcome_shapes[OF g p(1), of 25 1000 5 True]
  show ?thesis by auto
qed

text \<open>
  C7, as amended. When a timer was armed (a budget other than 0) and is delivered before
  the solve disarms it, the \<^verbatim>\<open>try\<close> block raises the handler's error; a search that does
  not return raises as well. Whatever is raised in the \<^verbatim>\<open>try\<close> block, the solve ends in
  its \<^verbatim>\<open>except\<close> branch: it responds "unknown" (unless genmove is running) and returns no
  move, so no result is reported as proven. With budget 0 no timer is armed: the solve
  runs the search to completion and reports its result.
\<close>

theorem solve_failure_is_unknown:
  "(time self \<noteq> 0 \<and> expired \<longrightarrow>
      solve_try MAXSIZE INFINITY fuel ops self expired = Inl (handler, self))
   \<and> (iterativeDeepening fuel ops INFINITY (board self) (hashTable self) = None \<longrightarrow>
      (\<exists>e. solve_try MAXSIZE INFINITY fuel ops self expired = Inl (e, self)))
   \<and> (\<forall>e c. solve_try MAXSIZE INFINITY fuel ops self expired = Inl (e, c) \<longrightarrow>
         solve_cmd MAXSIZE INFINITY fuel ops self expired = solve_except c
         \<and> returned (solve_cmd MAXSIZE INFINITY fuel ops self expired) = PASS
         \<and> (genMoveRunning self = False \<longrightarrow>
              response (solve_cmd MAXSIZE INFINITY fuel ops self expired) = Some ''unknown''))
   \<and> (time self = 0 \<longrightarrow>
      solve_cmd MAXSIZE INFINITY fuel ops self expired = solve_cmd MAXSIZE INFINITY fuel ops self False)"
proof (intro conjI impI allI)
  assume "time self \<noteq> 0 \<and> expired"
  then show "solve_try MAXSIZE INFINITY fuel ops self expired = Inl (handler, self)"
    by (simp add: solve_try_def)
next
  assume "iterativeDeepening fuel ops INFINITY (board self) (hashTable self) = None"
  then show "\<exists>e. solve_try MAXSIZE INFINITY fuel ops self expired = Inl (e, self)"
    by (simp add: solve_try_def)
next
  fix e c
  assume a: "solve_try MAXSIZE INFINITY fuel ops self expired = Inl (e, c)"
  then show eq: "solve_cmd MAXSIZE INFINITY fuel ops self expired = solve_except c"
    by (simp add: solve_cmd_def)
  show "returned (solve_cmd MAXSIZE INFINITY fuel ops self expired) = PASS"
    unfolding eq by (simp add: solve_except_def)
  assume "genMoveRunning self = False"
  with solve_try_keeps(1)[OF a] have "genMoveRunning c = False" by simp
  then show "response (solve_cmd MAXSIZE INFINITY fuel ops self expired) = Some ''unknown''"
    unfolding eq by (simp add: solve_except_def)
next
  assume "time self = 0"
  then show "solve_cmd MAXSIZE INFINITY fuel ops self expired = solve_cmd MAXSIZE INFINITY fuel ops self False"
    by (simp add: solve_cmd_def solve_try_def)
qed

theorem solve_failure_is_unknown_witness:
  "time (connection_on board_black_wins 2) \<noteq> 0
   \<and> solve_try 25 1000 5 gomoku_ops (connection_on board_black_wins 2) True
       = Inl (handler, connection_on board_black_wins 2)
   \<and> response (solve_cmd 25 1000 5 gomoku_ops (connection_on board_black_wins 2) True) = Some ''unknown''
   \<and> iterativeDeepening 1 gomoku_ops 1000 (board (connection_on board_2x2_half 2))
        (hashTable (connection_on board_2x2_half 2)) = None
   \<and> response (solve_cmd 25 1000 1 gomoku_ops (connection_on board_2x2_half 2) False) = Some ''unknown''
   \<and> time (connection_on board_black_wins 0) = 0
   \<and> solve_cmd 25 1000 5 gomoku_ops (connection_on board_black_wins 0) True
       = solve_cmd 25 1000 5 gomoku_ops (connection_on board_black_wins 0) False"
proof -
  have t: "time (connection_on board_black_wins 2) \<noteq> 0" "time (connection_on board_black_wins 0) = 0"
    by (simp_all add: connection_on_def)
  have g: "genMoveRunning (connection_on b n) = False" for b n
    by (simp add: connection_on_def)
  have n: "iterativeDeepening 1 gomoku_ops 1000 (board (connection_on board_2x2_half 2))
        (hashTable (connection_on board_2x2_half 2)) = None"
    by code_simp
  note A = solve_failure_is_unknown[of "connection_on board_black_wins 2" True 25 1000 5 gomoku_ops]
  note B = solve_failure_is_unknown[of "connection_on board_2x2_half 2" False 25 1000 1 gomoku_ops]
  note C = solve_failure_is_unknown[of "connection_on board_black_wins 0" True 25 1000 5 gomoku_ops]
  from A t(1) have a1: "solve_try 25 1000 5 gomoku_ops (connection_on board_black_wins 2) True
       = Inl (handler, connection_on board_black_wins 2)" by blast
  with A g have a2: "response (solve_cmd 25 1000 5 gomoku_ops (connection_on board_black_wins 2) True) = Some ''unknown''"
    by blast
  from B n obtain e where "solve_try 25 1000 1 gomoku_ops (connection_on board_2x2_half 2) False
       = Inl (e, connection_on board_2x2_half 2)" by blast
  with B g have b2: "response (solve_cmd 25 1000 1 gomoku_ops (connection_on board_2x2_half 2) False) = Some ''unknown''"
    by blast
  from C t(2) have c1: "solve_cmd 25 1000 5 gomoku_ops (connection_on board_black_wins 0) True
       = solve_cmd 25 1000 5 gomoku_ops (connection_on board_black_wins 0) False" by blast
  show ?thesis
    by (intro conjI) (rule t a1 a2 n b2 c1)+
qed

text \<open>
  C7 as stated fails for budget 0: \<^verbatim>\<open>signal.alarm(0)\<close> arms no timer, and on
  \<open>board_black_wins\<close> the solve with budget 0 reports the proven win "b E1", not
  "unknown", whatever the environment would deliver.
\<close>

theorem solve_budget_zero_counterexample:
  "time (connection_on board_black_wins 0) = 0
   \<and> response (solve_cmd 25 1000 5 gomoku_ops (connection_on board_black_wins 0) True) = Some ''b E1''
   \<and> returned (solve_cmd 25 1000 5 gomoku_ops (connection_on board_black_wins 0) True) = Move 11"
  by code_simp



end
